theory Spec2Isabelle
  imports Complex_Main "HOL-Library.Multiset" "HOL-Library.Char_ord" "HOL-Library.List_Lexorder"
    "HOL-Library.Sublist"
begin

section \<open>The person registry (database.py)\<close>

text \<open>
  The registry keeps two SQLite tables, \<open>persons\<close> and \<open>detection_logs\<close>. A table is
  modelled as the list of its rows in insertion order, together with the counter that
  \<open>AUTOINCREMENT\<close> keeps for it. Every method of \<open>PersonDatabase\<close> opens a connection,
  runs its statements, commits and closes, so a method is a function from the store
  before the call to the store after it. A method that can raise returns its outcome
  (\<open>Inl\<close> the exception) paired with the store it leaves behind; a statement that raises
  is never committed.

  Timestamps are written by \<open>datetime.now().isoformat()\<close> and compared by SQLite as
  text. ISO-8601 text of a fixed layout sorts like the instants it denotes, so a timestamp is
  modelled as an integer count of microseconds and compared as a number; the clock reading
  \<open>now\<close> is an argument of each operation that reads the clock.

  Names are \<open>TEXT\<close> compared bytewise (the \<open>BINARY\<close> collation), which is the
  lexicographic order on \<open>string\<close>.
\<close>

type_synonym timestamp = int

type_synonym metadata = "(string \<times> string) list"

datatype error =
    IntegrityError
  | ValueError string
  | JSONDecodeError
  | IndexError
  | LibraryError

text \<open>
  A row of \<open>persons\<close>. The record is shared by the stored row, whose \<open>face_encoding\<close> and
  \<open>metadata\<close> columns hold text, and by the dictionary handed to the caller, where both
  have been replaced by the decoded values.
\<close>

record ('e, 'm) person =
  id' :: int
  name :: string
  face_encoding :: 'e
  registration_date :: timestamp
  last_seen :: "timestamp option"
  total_detections :: int
  metadata :: 'm

type_synonym person_row = "(string, string option) person"

record detection_log =
  log_id :: int
  person_id :: int
  detection_time :: timestamp
  confidence :: "real option"

record database =
  persons :: "person_row list"
  detection_logs :: "detection_log list"
  persons_seq :: int
  detection_logs_seq :: int

text \<open>
  \<open>json.dumps\<close> and \<open>json.loads\<close> belong to the Python library. They are parameters of the
  model: one pair for the embedding column and one for the metadata column. \<open>loads\<close>
  returns \<open>None\<close> where the library raises \<open>JSONDecodeError\<close>.
\<close>

record 'e json =
  dumps_encoding :: "'e \<Rightarrow> string"
  loads_encoding :: "string \<Rightarrow> 'e option"
  dumps_metadata :: "metadata \<Rightarrow> string"
  loads_metadata :: "string \<Rightarrow> metadata option"

definition init_database :: database where
  "init_database = \<lparr>persons = [], detection_logs = [], persons_seq = 0, detection_logs_seq = 0\<rparr>"

text \<open>
  \<open>INTEGER PRIMARY KEY AUTOINCREMENT\<close>: the new row id is one more than the largest id
  the table has ever held, which SQLite computes from its sequence counter and the ids
  present.
\<close>

definition next_rowid :: "int \<Rightarrow> int list \<Rightarrow> int" where
  "next_rowid seq ids = max seq (foldr max ids 0) + 1"

text \<open>\<open>metadata or {}\<close>: \<open>None\<close> and the empty dictionary are both falsy.\<close>

definition or_empty :: "metadata option \<Rightarrow> metadata" where
  "or_empty md = (case md of None \<Rightarrow> [] | Some m \<Rightarrow> if m = [] then [] else m)"

definition already_exists :: "string \<Rightarrow> string" where
  "already_exists nm = ''Person with name '' @ [CHR 0x27] @ nm @ [CHR 0x27] @ '' already exists''"

definition add_person ::
  "'e json \<Rightarrow> timestamp \<Rightarrow> string \<Rightarrow> 'e \<Rightarrow> metadata option \<Rightarrow> database
     \<Rightarrow> (error + int) \<times> database" where
  "add_person j now nm enc md s =
     (if nm \<in> set (map name (persons s)) then (Inl (ValueError (already_exists nm)), s)
      else
        let pid = next_rowid (persons_seq s) (map id' (persons s));
            row = \<lparr>id' = pid, name = nm, face_encoding = dumps_encoding j enc,
                   registration_date = now, last_seen = None, total_detections = 0,
                   metadata = Some (dumps_metadata j (or_empty md))\<rparr>
        in (Inr pid, s\<lparr>persons := persons s @ [row], persons_seq := pid\<rparr>))"

text \<open>
  \<open>update_person\<close>: \<open>if name:\<close> holds for a name that is neither \<open>None\<close> nor empty,
  \<open>if metadata is not None:\<close> for any dictionary. The \<open>UPDATE\<close> fails with an
  \<open>IntegrityError\<close>, which the method does not catch, when it would give the addressed row the
  name of another row; nothing is committed then.
\<close>

definition supplied_name :: "string option \<Rightarrow> string option" where
  "supplied_name nm = (case nm of None \<Rightarrow> None | Some n \<Rightarrow> if n = [] then None else Some n)"

definition name_taken :: "int \<Rightarrow> string \<Rightarrow> person_row list \<Rightarrow> bool" where
  "name_taken pid n rows =
     ((\<exists>r \<in> set rows. id' r = pid) \<and> (\<exists>r \<in> set rows. id' r \<noteq> pid \<and> name r = n))"

definition set_columns :: "string option \<Rightarrow> string option \<Rightarrow> person_row \<Rightarrow> person_row" where
  "set_columns n m r =
     (let r1 = (case n of None \<Rightarrow> r | Some v \<Rightarrow> r\<lparr>name := v\<rparr>)
      in (case m of None \<Rightarrow> r1 | Some t \<Rightarrow> r1\<lparr>metadata := Some t\<rparr>))"

definition update_person ::
  "'e json \<Rightarrow> int \<Rightarrow> string option \<Rightarrow> metadata option \<Rightarrow> database
     \<Rightarrow> (error + unit) \<times> database" where
  "update_person j pid nm md s =
     (let n = supplied_name nm; m = map_option (dumps_metadata j) md
      in if n = None \<and> m = None then (Inr (), s)
         else if (case n of None \<Rightarrow> False | Some v \<Rightarrow> name_taken pid v (persons s))
           then (Inl IntegrityError, s)
         else (Inr (), s\<lparr>persons := map (\<lambda>r. if id' r = pid then set_columns n m r else r) (persons s)\<rparr>))"

definition delete_person :: "int \<Rightarrow> database \<Rightarrow> database" where
  "delete_person pid s =
     s\<lparr>persons := filter (\<lambda>r. id' r \<noteq> pid) (persons s),
       detection_logs := filter (\<lambda>l. person_id l \<noteq> pid) (detection_logs s)\<rparr>"

text \<open>
  Reading a row: \<open>dict(row)\<close>, then \<open>json.loads\<close> on the embedding, then on the metadata
  when the column is neither \<open>NULL\<close> nor empty.
\<close>

definition decode_row :: "'e json \<Rightarrow> person_row \<Rightarrow> error + ('e, metadata) person" where
  "decode_row j r =
     (case loads_encoding j (face_encoding r) of
        None \<Rightarrow> Inl JSONDecodeError
      | Some enc \<Rightarrow>
          (case (case metadata r of
                   None \<Rightarrow> Some []
                 | Some t \<Rightarrow> if t = [] then Some [] else loads_metadata j t) of
             None \<Rightarrow> Inl JSONDecodeError
           | Some md \<Rightarrow>
               Inr \<lparr>id' = id' r, name = name r, face_encoding = enc,
                    registration_date = registration_date r, last_seen = last_seen r,
                    total_detections = total_detections r, metadata = md\<rparr>))"

fun decode_rows :: "'e json \<Rightarrow> person_row list \<Rightarrow> error + ('e, metadata) person list" where
  "decode_rows j [] = Inr []"
| "decode_rows j (r # rs) =
     (case decode_row j r of
        Inl e \<Rightarrow> Inl e
      | Inr p \<Rightarrow> (case decode_rows j rs of Inl e \<Rightarrow> Inl e | Inr ps \<Rightarrow> Inr (p # ps)))"

text \<open>\<open>ORDER BY\<close>: the rows are sorted by a comparison, here by insertion.\<close>

fun insert_by :: "('a \<Rightarrow> 'a \<Rightarrow> bool) \<Rightarrow> 'a \<Rightarrow> 'a list \<Rightarrow> 'a list" where
  "insert_by le x [] = [x]"
| "insert_by le x (y # ys) = (if le x y then x # y # ys else y # insert_by le x ys)"

definition order_by :: "('a \<Rightarrow> 'a \<Rightarrow> bool) \<Rightarrow> 'a list \<Rightarrow> 'a list" where
  "order_by le xs = foldr (insert_by le) xs []"

text \<open>SQLite orders \<open>NULL\<close> below every value, so \<open>DESC\<close> puts it last.\<close>

fun null_less :: "timestamp option \<Rightarrow> timestamp option \<Rightarrow> bool" where
  "null_less None None = False"
| "null_less None (Some b) = True"
| "null_less (Some a) None = False"
| "null_less (Some a) (Some b) = (a < b)"

text \<open>\<open>ORDER BY last_seen DESC, name ASC\<close>\<close>

definition last_seen_desc_name_asc :: "('e, 'm) person \<Rightarrow> ('e, 'm) person \<Rightarrow> bool" where
  "last_seen_desc_name_asc a b =
     (null_less (last_seen b) (last_seen a) \<or> (last_seen a = last_seen b \<and> name a \<le> name b))"

definition get_all_persons :: "'e json \<Rightarrow> database \<Rightarrow> error + ('e, metadata) person list" where
  "get_all_persons j s = decode_rows j (order_by last_seen_desc_name_asc (persons s))"

definition get_person_by_id ::
  "'e json \<Rightarrow> int \<Rightarrow> database \<Rightarrow> error + ('e, metadata) person option" where
  "get_person_by_id j pid s =
     (case find (\<lambda>r. id' r = pid) (persons s) of
        None \<Rightarrow> Inr None
      | Some r \<Rightarrow> (case decode_row j r of Inl e \<Rightarrow> Inl e | Inr p \<Rightarrow> Inr (Some p)))"

text \<open>
  \<open>log_detection\<close>: one \<open>INSERT\<close> into \<open>detection_logs\<close> and one \<open>UPDATE\<close> of \<open>persons\<close>,
  both with the same clock reading, committed together by the single \<open>commit\<close>.
  Foreign keys are not enforced (the connection never enables them), so the insert does not
  depend on the person being there.
\<close>

definition log_detection :: "timestamp \<Rightarrow> int \<Rightarrow> real option \<Rightarrow> database \<Rightarrow> database" where
  "log_detection now pid conf s =
     (let lid = next_rowid (detection_logs_seq s) (map log_id (detection_logs s))
      in s\<lparr>detection_logs :=
             detection_logs s @
               [\<lparr>log_id = lid, person_id = pid, detection_time = now, confidence = conf\<rparr>],
           detection_logs_seq := lid,
           persons :=
             map (\<lambda>r. if id' r = pid
                       then r\<lparr>last_seen := Some now, total_detections := total_detections r + 1\<rparr>
                       else r) (persons s)\<rparr>)"

text \<open>
  \<open>get_detection_stats\<close>: three queries over the log rows newer than the cutoff. The third
  joins the log with \<open>persons\<close> and groups by the person's id, which is the primary key, so
  there is one group for each person who has a row in the window. \<open>ORDER BY count DESC\<close>
  leaves the order among equal counts to the engine; the model sorts the groups, taken in
  table order, by insertion.
\<close>

record stats =
  stats_total_detections :: nat
  unique_persons :: nat
  top_visitors :: "(string \<times> nat) list"

definition microseconds_per_day :: int where
  "microseconds_per_day = 86400000000"

definition count_desc :: "string \<times> nat \<Rightarrow> string \<times> nat \<Rightarrow> bool" where
  "count_desc a b = (snd b \<le> snd a)"

definition visits :: "detection_log list \<Rightarrow> person_row \<Rightarrow> nat" where
  "visits logs p = length (filter (\<lambda>l. person_id l = id' p) logs)"

definition get_detection_stats :: "timestamp \<Rightarrow> int \<Rightarrow> database \<Rightarrow> stats" where
  "get_detection_stats now days s =
     (let cutoff_date = now - days * microseconds_per_day;
          recent = filter (\<lambda>l. cutoff_date < detection_time l) (detection_logs s);
          groups = map (\<lambda>p. (name p, visits recent p))
                     (filter (\<lambda>p. 0 < visits recent p) (persons s))
      in \<lparr>stats_total_detections = length recent,
          unique_persons = length (remdups (map person_id recent)),
          top_visitors = take 5 (order_by count_desc groups)\<rparr>)"

text \<open>
  \<open>search_persons\<close> binds the pattern \<open>%query%\<close> to SQLite's \<open>LIKE\<close>. In a \<open>LIKE\<close> pattern
  \<open>%\<close> stands for any run of characters, \<open>_\<close> for any single character, and every other
  character for itself, upper and lower case of the ASCII letters taken as equal. No
  \<open>ESCAPE\<close> is given, so a \<open>%\<close> or \<open>_\<close> typed into the query is a wildcard too.
\<close>

definition ascii_upper :: "char \<Rightarrow> char" where
  "ascii_upper c =
     (if CHR ''a'' \<le> c \<and> c \<le> CHR ''z'' then char_of (of_char c - (32::nat)) else c)"

fun like :: "string \<Rightarrow> string \<Rightarrow> bool" where
  "like [] [] = True"
| "like [] (c # cs) = False"
| "like (p # ps) [] = (p = CHR ''%'' \<and> like ps [])"
| "like (p # ps) (c # cs) =
     (if p = CHR ''%'' then like ps (c # cs) \<or> like (p # ps) cs
      else if p = CHR ''_'' then like ps cs
      else ascii_upper p = ascii_upper c \<and> like ps cs)"

definition name_asc :: "('e, 'm) person \<Rightarrow> ('e, 'm) person \<Rightarrow> bool" where
  "name_asc a b = (name a \<le> name b)"

definition search_persons :: "'e json \<Rightarrow> string \<Rightarrow> database \<Rightarrow> error + ('e, metadata) person list" where
  "search_persons j query s =
     decode_rows j
       (order_by name_asc (filter (\<lambda>r. like (''%'' @ query @ ''%'') (name r)) (persons s)))"

section \<open>The matcher (face_utils.py)\<close>

text \<open>
  \<open>FaceRecognitionSystem\<close> keeps three parallel lists, the embeddings, names and ids of the
  known persons, beside the registry and the name of the detector model. The image
  libraries (\<open>cv2\<close>, \<open>face_recognition\<close>'s detector and encoder) are parameters of the model;
  \<open>face_encodings\<close> returns \<open>Inl\<close> where the library raises. Embedding components,
  distances and confidences are floating-point numbers in the program and real numbers
  here; box coordinates are integers.
\<close>

type_synonym encoding = "real list"

type_synonym box = "int \<times> int \<times> int \<times> int"

record 'img vision =
  cvtColor :: "'img \<Rightarrow> 'img"
  shape :: "'img \<Rightarrow> nat \<times> nat"
  resize :: "'img \<Rightarrow> nat \<times> nat \<Rightarrow> 'img"
  face_locations :: "'img \<Rightarrow> string \<Rightarrow> box list"
  face_encodings :: "'img \<Rightarrow> box list \<Rightarrow> error + encoding list"

record matcher =
  model :: string
  known_face_encodings :: "encoding list"
  known_face_names :: "string list"
  known_face_ids :: "int list"

record recognized =
  face_location :: box
  face_name :: string
  face_person_id :: "int option"
  face_confidence :: real

definition load_known_faces :: "encoding json \<Rightarrow> matcher \<Rightarrow> database \<Rightarrow> (error + unit) \<times> matcher" where
  "load_known_faces j m s =
     (case get_all_persons j s of
        Inl e \<Rightarrow> (Inl e, m)
      | Inr ps \<Rightarrow>
          (let known = filter (\<lambda>p. face_encoding p \<noteq> []) ps
           in (Inr (), m\<lparr>known_face_encodings := map face_encoding known,
                          known_face_names := map name known,
                          known_face_ids := map id' known\<rparr>)))"

text \<open>\<open>int(x)\<close> on a float truncates towards zero.\<close>

definition py_int :: "real \<Rightarrow> int" where
  "py_int x = (if 0 \<le> x then \<lfloor>x\<rfloor> else \<lceil>x\<rceil>)"

text \<open>
  The three methods that take a frame start alike: convert to RGB and, when the frame is
  wider than 800 pixels, shrink it to width 800. The result is the working frame.
\<close>

definition working_frame :: "'img vision \<Rightarrow> 'img \<Rightarrow> 'img" where
  "working_frame lib frame =
     (let rgb_frame = cvtColor lib frame; (height, width) = shape lib rgb_frame
      in if 800 < width
         then resize lib rgb_frame (800, nat (py_int (real height * (800 / real width))))
         else rgb_frame)"

definition scale_back :: "nat \<Rightarrow> box \<Rightarrow> box" where
  "scale_back width b =
     (case b of (top', right', bottom', left') \<Rightarrow>
        if 800 < width
        then (let scale_factor = real width / 800
              in (py_int (real_of_int top' * scale_factor), py_int (real_of_int right' * scale_factor),
                  py_int (real_of_int bottom' * scale_factor), py_int (real_of_int left' * scale_factor)))
        else (top', right', bottom', left'))"

definition detect_faces :: "'img vision \<Rightarrow> matcher \<Rightarrow> 'img \<Rightarrow> box list" where
  "detect_faces lib m frame =
     map (scale_back (snd (shape lib (cvtColor lib frame))))
       (face_locations lib (working_frame lib frame) (model m))"

text \<open>
  The comparison functions of the \<open>face_recognition\<close> library and of \<open>numpy\<close>:
  \<open>face_distance\<close> is the Euclidean norm of the difference to each known embedding,
  \<open>compare_faces\<close> is \<open>face_distance(...) <= tolerance\<close> componentwise, and \<open>argmin\<close>,
  \<open>argmax\<close> return the first index of the least and of the greatest element.
\<close>

definition euclidean :: "encoding \<Rightarrow> encoding \<Rightarrow> real" where
  "euclidean a b = sqrt (\<Sum>(x, y) \<leftarrow> zip a b. (x - y)\<^sup>2)"

definition face_distance :: "encoding list \<Rightarrow> encoding \<Rightarrow> real list" where
  "face_distance known enc = map (\<lambda>k. euclidean k enc) known"

definition compare_faces :: "encoding list \<Rightarrow> encoding \<Rightarrow> real \<Rightarrow> bool list" where
  "compare_faces known enc tolerance = map (\<lambda>d. d \<le> tolerance) (face_distance known enc)"

fun index_of :: "'a \<Rightarrow> 'a list \<Rightarrow> nat" where
  "index_of x [] = 0"
| "index_of x (y # ys) = (if x = y then 0 else Suc (index_of x ys))"

definition argmin :: "'a::linorder list \<Rightarrow> nat" where
  "argmin xs = index_of (Min (set xs)) xs"

definition argmax :: "'a::linorder list \<Rightarrow> nat" where
  "argmax xs = index_of (Max (set xs)) xs"

definition item :: "'a list \<Rightarrow> nat \<Rightarrow> error + 'a" where
  "item xs i = (if i < length xs then Inr (xs ! i) else Inl IndexError)"

definition unknown :: "box \<Rightarrow> recognized" where
  "unknown loc = \<lparr>face_location = loc, face_name = ''Unknown'', face_person_id = None,
                  face_confidence = 0\<rparr>"

text \<open>The body of the loop of \<open>recognize_faces\<close> for one face, after scaling its box back.\<close>

definition recognize_face :: "matcher \<Rightarrow> box \<Rightarrow> encoding \<Rightarrow> error + recognized" where
  "recognize_face m loc face_enc =
     (if known_face_encodings m = [] then Inr (unknown loc)
      else
        let matches = compare_faces (known_face_encodings m) face_enc (6 / 10)
        in if True \<notin> set matches then Inr (unknown loc)
           else
             let face_distances = face_distance (known_face_encodings m) face_enc;
                 best_match_index = argmin face_distances
             in if \<not> matches ! best_match_index then Inr (unknown loc)
                else
                  (case item (known_face_names m) best_match_index of
                     Inl e \<Rightarrow> Inl e
                   | Inr nm \<Rightarrow>
                       (case item (known_face_ids m) best_match_index of
                          Inl e \<Rightarrow> Inl e
                        | Inr pid \<Rightarrow>
                            Inr \<lparr>face_location = loc, face_name = nm, face_person_id = Some pid,
                                 face_confidence = 1 - face_distances ! best_match_index\<rparr>)))"

fun recognize_each :: "matcher \<Rightarrow> nat \<Rightarrow> (box \<times> encoding) list \<Rightarrow> error + recognized list" where
  "recognize_each m width [] = Inr []"
| "recognize_each m width ((loc, enc) # rest) =
     (case recognize_face m (scale_back width loc) enc of
        Inl e \<Rightarrow> Inl e
      | Inr r \<Rightarrow> (case recognize_each m width rest of Inl e \<Rightarrow> Inl e | Inr rs \<Rightarrow> Inr (r # rs)))"

definition recognize_faces :: "'img vision \<Rightarrow> matcher \<Rightarrow> 'img \<Rightarrow> error + recognized list" where
  "recognize_faces lib m frame =
     (let rgb_frame = working_frame lib frame;
          width = snd (shape lib (cvtColor lib frame));
          locs = face_locations lib rgb_frame (model m)
      in case face_encodings lib rgb_frame locs of
           Inl e \<Rightarrow> Inl e
         | Inr encs \<Rightarrow> recognize_each m width (zip locs encs))"

text \<open>
  \<open>register_new_face\<close>: everything from the encoding of the chosen face to the three
  appends is inside one \<open>try\<close> whose handler catches every exception and returns
  \<open>False\<close>. The result is the flag, the matcher and the registry after the call.
\<close>

definition area :: "box \<Rightarrow> int" where
  "area b = (case b of (top', right', bottom', left') \<Rightarrow> (bottom' - top') * (right' - left'))"

definition register_new_face ::
  "'img vision \<Rightarrow> encoding json \<Rightarrow> timestamp \<Rightarrow> 'img \<Rightarrow> string \<Rightarrow> metadata option
     \<Rightarrow> matcher \<Rightarrow> database \<Rightarrow> bool \<times> matcher \<times> database" where
  "register_new_face lib j now frame nm md m s =
     (let rgb_frame = working_frame lib frame;
          locs = face_locations lib rgb_frame (model m)
      in if locs = [] then (False, m, s)
         else
           let face_sizes = map area locs;
               best_face_idx = argmax face_sizes
           in case face_encodings lib rgb_frame [locs ! best_face_idx] of
                Inl e \<Rightarrow> (False, m, s)
              | Inr [] \<Rightarrow> (False, m, s)
              | Inr (face_enc # _) \<Rightarrow>
                  (case add_person j now nm face_enc md s of
                     (Inl e, s') \<Rightarrow> (False, m, s')
                   | (Inr pid, s') \<Rightarrow>
                       (True,
                        m\<lparr>known_face_encodings := known_face_encodings m @ [face_enc],
                          known_face_names := known_face_names m @ [nm],
                          known_face_ids := known_face_ids m @ [pid]\<rparr>,
                        s')))"

section \<open>Vocabulary of the properties\<close>

text \<open>The log rows that refer to a person, and the stored row of a person.\<close>

definition logs_of :: "int \<Rightarrow> database \<Rightarrow> detection_log list" where
  "logs_of pid s = filter (\<lambda>l. person_id l = pid) (detection_logs s)"

definition person_row_of :: "int \<Rightarrow> database \<Rightarrow> person_row option" where
  "person_row_of pid s = find (\<lambda>r. id' r = pid) (persons s)"

text \<open>
  A run of calls \<open>log_detection(pid, c)\<close>, one for each element of the list, which gives the
  clock reading and the confidence of that call.
\<close>

definition log_detection_calls ::
  "int \<Rightarrow> (timestamp \<times> real option) list \<Rightarrow> database \<Rightarrow> database" where
  "log_detection_calls pid calls s = foldl (\<lambda>s' (t, c). log_detection t pid c s') s calls"


text \<open>The start of the window of \<open>get_detection_stats\<close> and the log rows inside it.\<close>

definition cutoff_date :: "timestamp \<Rightarrow> int \<Rightarrow> timestamp" where
  "cutoff_date now days = now - days * microseconds_per_day"


text \<open>
  Substring search in the words of the specification: the name contains the query as a
  run of consecutive characters, the ASCII letters compared without regard to case as
  \<open>LIKE\<close> does by default. A query is plain when it has neither of the two characters
  that \<open>LIKE\<close> reads as wildcards.
\<close>

definition contains_ignoring_case :: "string \<Rightarrow> string \<Rightarrow> bool" where
  "contains_ignoring_case nm q = sublist (map ascii_upper q) (map ascii_upper nm)"

definition plain :: "string \<Rightarrow> bool" where
  "plain q = (CHR ''%'' \<notin> set q \<and> CHR ''_'' \<notin> set q)"

text \<open>
  The known embedding that \<open>recognize_faces\<close> compares a face with: the first one at the
  least distance. The faces that the detector finds in the working frame, and the one that
  \<open>register_new_face\<close> picks.
\<close>

definition nearest :: "encoding list \<Rightarrow> encoding \<Rightarrow> nat" where
  "nearest known enc = argmin (face_distance known enc)"

definition found_faces :: "'img vision \<Rightarrow> matcher \<Rightarrow> 'img \<Rightarrow> box list" where
  "found_faces lib m frame = face_locations lib (working_frame lib frame) (model m)"

definition largest_face :: "'img vision \<Rightarrow> matcher \<Rightarrow> 'img \<Rightarrow> nat" where
  "largest_face lib m frame = argmax (map area (found_faces lib m frame))"

text \<open>
  Sample data for the examples: a serializer for embeddings whose components are small
  natural numbers, the store that holds Alice alone, and the store left by logging a
  detection for an id that no person has.
\<close>

definition sample_json :: "real list json" where
  "sample_json =
     \<lparr>dumps_encoding = map (\<lambda>x. char_of (nat \<lfloor>x\<rfloor>)),
      loads_encoding = (\<lambda>t. Some (map (\<lambda>c. real (of_char c)) t)),
      dumps_metadata = (\<lambda>m. if m = [] then ''{}'' else ''{...}''),
      loads_metadata = (\<lambda>t. if t = ''{}'' then Some [] else None)\<rparr>"

definition alice_row :: person_row where
  "alice_row =
     \<lparr>id' = 1, name = ''Alice'', face_encoding = map char_of [1, 2, 3 :: nat],
      registration_date = 100, last_seen = None, total_detections = 0,
      metadata = Some ''{}''\<rparr>"

definition alice_store :: database where
  "alice_store =
     \<lparr>persons = [alice_row], detection_logs = [], persons_seq = 1, detection_logs_seq = 0\<rparr>"

definition bob_row :: person_row where
  "bob_row =
     \<lparr>id' = 2, name = ''Bob'', face_encoding = map char_of [4, 5 :: nat],
      registration_date = 110, last_seen = Some 310, total_detections = 3,
      metadata = Some ''{}''\<rparr>"

definition carol_row :: person_row where
  "carol_row =
     \<lparr>id' = 3, name = ''Carol'', face_encoding = map char_of [6 :: nat],
      registration_date = 120, last_seen = Some 200, total_detections = 1,
      metadata = None\<rparr>"

definition family_store :: database where
  "family_store =
     \<lparr>persons = [alice_row, bob_row, carol_row],
      detection_logs =
        [\<lparr>log_id = 1, person_id = 2, detection_time = 150, confidence = Some (9 / 10)\<rparr>,
         \<lparr>log_id = 2, person_id = 3, detection_time = 200, confidence = None\<rparr>,
         \<lparr>log_id = 3, person_id = 2, detection_time = 300, confidence = Some (7 / 10)\<rparr>,
         \<lparr>log_id = 4, person_id = 2, detection_time = 310, confidence = Some (8 / 10)\<rparr>],
      persons_seq = 3, detection_logs_seq = 4\<rparr>"

text \<open>
  A sample image library: a picture is the list of the faces in it, each with its box and
  its embedding, 640 pixels wide; the second library fails to encode. Two matchers that
  know Alice, and two pictures.
\<close>

definition sample_vision :: "(box \<times> encoding) list vision" where
  "sample_vision =
     \<lparr>cvtColor = (\<lambda>img. img),
      shape = (\<lambda>img. (480, 640)),
      resize = (\<lambda>img size. img),
      face_locations = (\<lambda>img detector. map fst img),
      face_encodings =
        (\<lambda>img locs. Inr (map (\<lambda>l. case map_of img l of None \<Rightarrow> [] | Some e \<Rightarrow> e) locs))\<rparr>"

definition failing_vision :: "(box \<times> encoding) list vision" where
  "failing_vision = sample_vision\<lparr>face_encodings := (\<lambda>img locs. Inl LibraryError)\<rparr>"

definition alice_matcher :: matcher where
  "alice_matcher =
     \<lparr>model = ''hog'', known_face_encodings = [[1, 2, 3]], known_face_names = [''Alice''],
      known_face_ids = [1]\<rparr>"

definition edge_matcher :: matcher where
  "edge_matcher =
     \<lparr>model = ''hog'', known_face_encodings = [[3 / 5]], known_face_names = [''Alice''],
      known_face_ids = [1]\<rparr>"

definition two_faces :: "(box \<times> encoding) list" where
  "two_faces = [((10, 50, 50, 10), [1, 2, 3]), ((20, 140, 60, 80), [4, 6, 3])]"

definition edge_face :: "(box \<times> encoding) list" where
  "edge_face = [((10, 50, 50, 10), [0])]"

definition dangling_store :: database where
  "dangling_store = log_detection 500 99 None init_database"

section \<open>Properties of the registry\<close>

subsection \<open>Row ids and lookups\<close>

lemma foldr_max_ge: "x \<in> set ids \<Longrightarrow> x \<le> foldr max ids (0::int)"
  by (induction ids) auto

lemma next_rowid_fresh: "next_rowid seq ids \<notin> set ids"
  using foldr_max_ge [of "next_rowid seq ids" ids] by (auto simp: next_rowid_def)

lemma find_append_fresh:
  "\<forall>x \<in> set xs. \<not> P x \<Longrightarrow> P y \<Longrightarrow> find P (xs @ [y]) = Some y"
  by (induction xs) auto

lemma find_map_same_id:
  assumes "\<And>r. id' (g r) = id' r"
  shows "find (\<lambda>r. id' r = pid) (map (\<lambda>r. if id' r = pid then g r else r) xs)
         = map_option g (find (\<lambda>r. id' r = pid) xs)"
  using assms by (induction xs) auto

subsection \<open>Adding a person\<close>

text \<open>
  C3. When no person has the name, \<open>add_person\<close> returns a new id and appends one row;
  \<open>get_person_by_id\<close> on that id then returns the given name, the embedding that was
  supplied (provided the serializer reads back what it wrote for this embedding and this
  metadata), the registration date \<open>now\<close>, no \<open>last_seen\<close> and zero detections. When a
  person has the name already, \<open>add_person\<close> raises \<open>ValueError\<close>, the duplicate-name error,
  and the store is the one before the call.
\<close>

theorem add_person_then_get_person_by_id:
  fixes j :: "'e json"
  assumes "loads_encoding j (dumps_encoding j enc) = Some enc"
    and "dumps_metadata j (or_empty md) \<noteq> []"
    and "loads_metadata j (dumps_metadata j (or_empty md)) = Some (or_empty md)"
  shows "(nm \<notin> set (map name (persons s)) \<longrightarrow>
           (\<exists>pid s' row. add_person j now nm enc md s = (Inr pid, s')
              \<and> pid \<notin> set (map id' (persons s))
              \<and> persons s' = persons s @ [row]
              \<and> detection_logs s' = detection_logs s
              \<and> get_person_by_id j pid s' =
                  Inr (Some \<lparr>id' = pid, name = nm, face_encoding = enc, registration_date = now,
                             last_seen = None, total_detections = 0, metadata = or_empty md\<rparr>)))
       \<and> (nm \<in> set (map name (persons s)) \<longrightarrow>
            add_person j now nm enc md s = (Inl (ValueError (already_exists nm)), s))"
proof (intro conjI impI)
  assume new: "nm \<notin> set (map name (persons s))"
  define pid where "pid = next_rowid (persons_seq s) (map id' (persons s))"
  define row :: person_row where
    "row = \<lparr>id' = pid, name = nm, face_encoding = dumps_encoding j enc,
            registration_date = now, last_seen = None, total_detections = 0,
            metadata = Some (dumps_metadata j (or_empty md))\<rparr>"
  define s' where "s' = s\<lparr>persons := persons s @ [row], persons_seq := pid\<rparr>"
  have fresh: "pid \<notin> set (map id' (persons s))"
    unfolding pid_def by (rule next_rowid_fresh)
  have add: "add_person j now nm enc md s = (Inr pid, s')"
    using new by (simp add: add_person_def Let_def pid_def row_def s'_def)
  have rows: "persons s' = persons s @ [row]" "detection_logs s' = detection_logs s"
    by (simp_all add: s'_def)
  have "find (\<lambda>r. id' r = pid) (persons s @ [row]) = Some row"
    using fresh by (intro find_append_fresh) (auto simp: row_def)
  then have "get_person_by_id j pid s' =
      Inr (Some \<lparr>id' = pid, name = nm, face_encoding = enc, registration_date = now,
                 last_seen = None, total_detections = 0, metadata = or_empty md\<rparr>)"
    using assms by (simp add: get_person_by_id_def s'_def decode_row_def row_def)
  with add fresh rows
  show "\<exists>pid s' row. add_person j now nm enc md s = (Inr pid, s')
              \<and> pid \<notin> set (map id' (persons s))
              \<and> persons s' = persons s @ [row]
              \<and> detection_logs s' = detection_logs s
              \<and> get_person_by_id j pid s' =
                  Inr (Some \<lparr>id' = pid, name = nm, face_encoding = enc, registration_date = now,
                             last_seen = None, total_detections = 0, metadata = or_empty md\<rparr>)"
    by blast
next
  assume "nm \<in> set (map name (persons s))"
  then show "add_person j now nm enc md s = (Inl (ValueError (already_exists nm)), s)"
    by (simp add: add_person_def)
qed

text \<open>
  The theorem at work: Bob is added to the store that holds Alice and read back, and a
  second Alice is refused.
\<close>

theorem add_person_then_get_person_by_id_witness:
  "loads_encoding sample_json (dumps_encoding sample_json [4, 5]) = Some [4, 5]
   \<and> dumps_metadata sample_json (or_empty None) \<noteq> []
   \<and> loads_metadata sample_json (dumps_metadata sample_json (or_empty None)) = Some (or_empty None)
   \<and> ''Bob'' \<notin> set (map name (persons alice_store))
   \<and> ''Alice'' \<in> set (map name (persons alice_store))
   \<and> (\<exists>pid s' row. add_person sample_json 200 ''Bob'' [4, 5] None alice_store = (Inr pid, s')
              \<and> pid \<notin> set (map id' (persons alice_store))
              \<and> persons s' = persons alice_store @ [row]
              \<and> detection_logs s' = detection_logs alice_store
              \<and> get_person_by_id sample_json pid s' =
                  Inr (Some \<lparr>id' = pid, name = ''Bob'', face_encoding = [4, 5],
                             registration_date = 200, last_seen = None, total_detections = 0,
                             metadata = or_empty None\<rparr>))
   \<and> add_person sample_json 200 ''Alice'' [4, 5] None alice_store
       = (Inl (ValueError (already_exists ''Alice'')), alice_store)"
proof -
  have h1: "loads_encoding sample_json (dumps_encoding sample_json [4, 5]) = Some [4, 5]"
    by (simp add: sample_json_def)
  have h2: "dumps_metadata sample_json (or_empty None) \<noteq> []"
    by (simp add: sample_json_def or_empty_def)
  have h3: "loads_metadata sample_json (dumps_metadata sample_json (or_empty None))
              = Some (or_empty None)"
    by (simp add: sample_json_def or_empty_def)
  have bob: "''Bob'' \<notin> set (map name (persons alice_store))"
    by (simp add: alice_store_def alice_row_def)
  have alice: "''Alice'' \<in> set (map name (persons alice_store))"
    by (simp add: alice_store_def alice_row_def)
  note added = add_person_then_get_person_by_id [OF h1 h2 h3, of "''Bob''" alice_store 200,
      THEN conjunct1, THEN mp, OF bob]
  note refused = add_person_then_get_person_by_id [OF h1 h2 h3, of "''Alice''" alice_store 200,
      THEN conjunct2, THEN mp, OF alice]
  show ?thesis
    by (rule conjI [OF h1 conjI [OF h2 conjI [OF h3 conjI [OF bob conjI [OF alice
          conjI [OF added refused]]]]]])
qed

subsection \<open>Logging detections\<close>

lemma person_row_of_log_detection:
  "person_row_of pid (log_detection now pid c s) =
     map_option (\<lambda>r. r\<lparr>last_seen := Some now, total_detections := total_detections r + 1\<rparr>)
       (person_row_of pid s)"
  unfolding person_row_of_def log_detection_def Let_def
  by (simp add: find_map_same_id
      [where g = "\<lambda>r. r\<lparr>last_seen := Some now, total_detections := total_detections r + 1\<rparr>"])

lemma logs_of_log_detection:
  "logs_of pid (log_detection now pid c s) =
     logs_of pid s @
       [\<lparr>log_id = next_rowid (detection_logs_seq s) (map log_id (detection_logs s)),
         person_id = pid, detection_time = now, confidence = c\<rparr>]"
  by (simp add: logs_of_def log_detection_def Let_def)

lemma log_detection_calls_snoc:
  "log_detection_calls pid (calls @ [(t, c)]) s
     = log_detection t pid c (log_detection_calls pid calls s)"
  by (simp add: log_detection_calls_def)

lemma log_detection_calls_effect:
  assumes "person_row_of pid s = Some r"
  shows "\<exists>r'. person_row_of pid (log_detection_calls pid calls s) = Some r'
     \<and> total_detections r' = total_detections r + int (length calls)
     \<and> length (logs_of pid (log_detection_calls pid calls s))
         = length (logs_of pid s) + length calls
     \<and> (calls \<noteq> [] \<longrightarrow> last_seen r' = Some (fst (last calls))
           \<and> detection_time (last (logs_of pid (log_detection_calls pid calls s)))
               = fst (last calls))"
proof (induction calls rule: rev_induct)
  case Nil
  then show ?case using assms by (simp add: log_detection_calls_def)
next
  case (snoc x calls)
  obtain t c where x: "x = (t, c)" by (cases x)
  from snoc obtain r' where r': "person_row_of pid (log_detection_calls pid calls s) = Some r'"
    and tot: "total_detections r' = total_detections r + int (length calls)"
    and len: "length (logs_of pid (log_detection_calls pid calls s))
                = length (logs_of pid s) + length calls"
    by blast
  show ?case
    unfolding x log_detection_calls_snoc
    by (simp add: person_row_of_log_detection logs_of_log_detection r' tot len)
qed

text \<open>
  C2. For a person who is in the store, any run of N calls of \<open>log_detection\<close> on that
  person's id raises \<open>total_detections\<close> by N and adds N log rows that refer to the id, so a
  counter that equalled the number of such rows still does, and a person who starts with
  counter zero and no rows ends with counter N and N rows. After a non-empty run
  \<open>last_seen\<close> is the clock reading of the last call, which is the \<open>detection_time\<close> of the
  row inserted last for the id. The statement holds for every run, hence after each single
  call: the row and the counter advance together.
\<close>

theorem log_detection_n_calls:
  assumes "person_row_of pid s = Some r"
  shows "\<exists>r'. person_row_of pid (log_detection_calls pid calls s) = Some r'
     \<and> total_detections r' = total_detections r + int (length calls)
     \<and> length (logs_of pid (log_detection_calls pid calls s))
         = length (logs_of pid s) + length calls
     \<and> (calls \<noteq> [] \<longrightarrow> last_seen r' = Some (fst (last calls))
           \<and> detection_time (last (logs_of pid (log_detection_calls pid calls s)))
               = fst (last calls))
     \<and> (total_detections r = int (length (logs_of pid s)) \<longrightarrow>
           total_detections r' = int (length (logs_of pid (log_detection_calls pid calls s))))
     \<and> (total_detections r = 0 \<and> logs_of pid s = [] \<longrightarrow>
           total_detections r' = int (length calls)
           \<and> length (logs_of pid (log_detection_calls pid calls s)) = length calls)"
  using log_detection_calls_effect [OF assms, of calls] by auto

text \<open>Two detections of Alice, at times 200 and 300.\<close>

theorem log_detection_n_calls_witness:
  "person_row_of 1 alice_store = Some alice_row
   \<and> total_detections alice_row = 0 \<and> logs_of 1 alice_store = []
   \<and> (\<exists>r'. person_row_of 1
               (log_detection_calls 1 [(200, Some (9 / 10)), (300, None)] alice_store) = Some r'
        \<and> total_detections r' = 2 \<and> last_seen r' = Some 300
        \<and> length (logs_of 1
               (log_detection_calls 1 [(200, Some (9 / 10)), (300, None)] alice_store)) = 2)"
proof -
  have h: "person_row_of 1 alice_store = Some alice_row"
    by (simp add: person_row_of_def alice_store_def alice_row_def)
  have z: "total_detections alice_row = 0" "logs_of 1 alice_store = []"
    by (simp_all add: alice_row_def alice_store_def logs_of_def)
  from log_detection_n_calls [OF h, of "[(200, Some (9 / 10)), (300, None)]"] z
  have "\<exists>r'. person_row_of 1
               (log_detection_calls 1 [(200, Some (9 / 10)), (300, None)] alice_store) = Some r'
        \<and> total_detections r' = 2 \<and> last_seen r' = Some 300
        \<and> length (logs_of 1
               (log_detection_calls 1 [(200, Some (9 / 10)), (300, None)] alice_store)) = 2"
    by auto
  with h z show ?thesis by blast
qed

subsection \<open>Deleting a person\<close>

lemma find_None_filter: "find P (filter (\<lambda>x. \<not> P x) xs) = None"
  by (induction xs) auto

text \<open>
  C6, as the code has it. After \<open>delete_person\<close> no person row and no log row carries the
  id, every other row of both tables is still there, and \<open>get_person_by_id\<close> returns
  nothing; deleting twice is deleting once. For an id that no person has, the \<open>persons\<close>
  table is left as it was, and the whole store is left as it was when no log row refers to
  the id either.
\<close>

theorem delete_person_removes:
  "get_person_by_id j pid (delete_person pid s) = Inr None
   \<and> (\<forall>r \<in> set (persons (delete_person pid s)). id' r \<noteq> pid)
   \<and> (\<forall>l \<in> set (detection_logs (delete_person pid s)). person_id l \<noteq> pid)
   \<and> (\<forall>r \<in> set (persons s). id' r \<noteq> pid \<longrightarrow> r \<in> set (persons (delete_person pid s)))
   \<and> (\<forall>l \<in> set (detection_logs s). person_id l \<noteq> pid \<longrightarrow>
         l \<in> set (detection_logs (delete_person pid s)))
   \<and> delete_person pid (delete_person pid s) = delete_person pid s
   \<and> (person_row_of pid s = None \<longrightarrow> persons (delete_person pid s) = persons s)
   \<and> (person_row_of pid s = None \<and> logs_of pid s = [] \<longrightarrow> delete_person pid s = s)"
proof -
  have 1: "get_person_by_id j pid (delete_person pid s) = Inr None"
    by (simp add: get_person_by_id_def delete_person_def find_None_filter)
  have 2: "delete_person pid (delete_person pid s) = delete_person pid s"
    by (simp add: delete_person_def)
  have 3: "person_row_of pid s = None \<Longrightarrow> persons (delete_person pid s) = persons s"
    by (auto simp: person_row_of_def delete_person_def find_None_iff filter_id_conv)
  have 4: "logs_of pid s = [] \<Longrightarrow> detection_logs (delete_person pid s) = detection_logs s"
    by (auto simp: logs_of_def delete_person_def filter_empty_conv filter_id_conv)
  have 5: "person_row_of pid s = None \<and> logs_of pid s = [] \<longrightarrow> delete_person pid s = s"
    using 3 4 by (auto simp: delete_person_def)
  show ?thesis using 1 2 3 5 by (auto simp: delete_person_def)
qed

text \<open>
  Alice is deleted after one detection, and an id that occurs nowhere is deleted from the
  store that holds Alice.
\<close>

theorem delete_person_removes_witness:
  "get_person_by_id sample_json 1 (delete_person 1 (log_detection 200 1 None alice_store))
     = Inr None
   \<and> person_row_of 7 alice_store = None \<and> logs_of 7 alice_store = []
   \<and> delete_person 7 alice_store = alice_store"
proof -
  note gone = delete_person_removes
      [of sample_json 1 "log_detection 200 1 None alice_store", THEN conjunct1]
  have h: "person_row_of 7 alice_store = None \<and> logs_of 7 alice_store = []"
    by (simp add: person_row_of_def logs_of_def alice_store_def alice_row_def)
  have same: "delete_person 7 alice_store = alice_store"
    using delete_person_removes [of sample_json 7 alice_store] h by blast
  from gone h same show ?thesis by blast
qed

text \<open>
  C6 as it is written fails where it calls deleting an id without a person a no-op: a
  detection logged for id 99, which no person has, leaves a log row, and \<open>delete_person\<close>
  removes that row.
\<close>

theorem delete_person_absent_not_noop:
  "person_row_of 99 dangling_store = None \<and> delete_person 99 dangling_store \<noteq> dangling_store"
  by (simp add: dangling_store_def person_row_of_def log_detection_def init_database_def
      delete_person_def next_rowid_def Let_def)

subsection \<open>Updating a person\<close>

text \<open>
  C7. \<open>update_person\<close> leaves the log alone, keeps every row in its place with its id,
  embedding, registration date, \<open>last_seen\<close> and \<open>total_detections\<close>, leaves the rows of
  other persons as they were, leaves the name alone when no name is given and the metadata
  alone when no metadata is given; on a successful call the addressed row takes the given
  non-empty name and the given metadata. With neither argument, or with an id that no
  person has, the call succeeds and the store is unchanged.
\<close>

theorem update_person_frame:
  "detection_logs (snd (update_person j pid nm md s)) = detection_logs s
   \<and> length (persons (snd (update_person j pid nm md s))) = length (persons s)
   \<and> (\<forall>i < length (persons s).
        let r = persons s ! i; r' = persons (snd (update_person j pid nm md s)) ! i
        in id' r' = id' r \<and> face_encoding r' = face_encoding r
           \<and> registration_date r' = registration_date r \<and> last_seen r' = last_seen r
           \<and> total_detections r' = total_detections r
           \<and> (id' r \<noteq> pid \<longrightarrow> r' = r)
           \<and> (nm = None \<longrightarrow> name r' = name r)
           \<and> (md = None \<longrightarrow> metadata r' = metadata r)
           \<and> (id' r = pid \<and> fst (update_person j pid nm md s) = Inr () \<longrightarrow>
                (\<forall>n. nm = Some n \<and> n \<noteq> [] \<longrightarrow> name r' = n)
                \<and> (\<forall>m. md = Some m \<longrightarrow> metadata r' = Some (dumps_metadata j m))))
   \<and> (nm = None \<and> md = None \<longrightarrow> update_person j pid nm md s = (Inr (), s))
   \<and> (person_row_of pid s = None \<longrightarrow> update_person j pid nm md s = (Inr (), s))"
proof -
  have unchanged: "map (\<lambda>r. if id' r = pid then f r else r) (persons s) = persons s"
    if "person_row_of pid s = None" for f :: "person_row \<Rightarrow> person_row"
    using that by (auto simp: person_row_of_def find_None_iff intro: map_idI)
  have absent: "person_row_of pid s = None \<longrightarrow> update_person j pid nm md s = (Inr (), s)"
    by (auto simp: update_person_def Let_def unchanged name_taken_def person_row_of_def
        find_None_iff split: option.splits)
  have noop: "nm = None \<and> md = None \<longrightarrow> update_person j pid nm md s = (Inr (), s)"
    by (simp add: update_person_def supplied_name_def)
  have rows: "\<forall>i < length (persons s).
        let r = persons s ! i; r' = persons (snd (update_person j pid nm md s)) ! i
        in id' r' = id' r \<and> face_encoding r' = face_encoding r
           \<and> registration_date r' = registration_date r \<and> last_seen r' = last_seen r
           \<and> total_detections r' = total_detections r
           \<and> (id' r \<noteq> pid \<longrightarrow> r' = r)
           \<and> (nm = None \<longrightarrow> name r' = name r)
           \<and> (md = None \<longrightarrow> metadata r' = metadata r)
           \<and> (id' r = pid \<and> fst (update_person j pid nm md s) = Inr () \<longrightarrow>
                (\<forall>n. nm = Some n \<and> n \<noteq> [] \<longrightarrow> name r' = n)
                \<and> (\<forall>m. md = Some m \<longrightarrow> metadata r' = Some (dumps_metadata j m)))"
    by (auto simp: update_person_def Let_def set_columns_def supplied_name_def
        split: option.splits)
  have logs: "detection_logs (snd (update_person j pid nm md s)) = detection_logs s"
    "length (persons (snd (update_person j pid nm md s))) = length (persons s)"
    by (auto simp: update_person_def Let_def split: option.splits)
  show ?thesis using absent noop rows logs by blast
qed

text \<open>
  Alice is renamed: her embedding and her counters stay. A call without arguments and a
  call on an id that no person has change nothing.
\<close>

theorem update_person_frame_witness:
  "face_encoding (persons (snd (update_person sample_json 1 (Some ''Alicia'') None alice_store)) ! 0)
     = face_encoding alice_row
   \<and> total_detections
       (persons (snd (update_person sample_json 1 (Some ''Alicia'') None alice_store)) ! 0) = 0
   \<and> name (persons (snd (update_person sample_json 1 (Some ''Alicia'') None alice_store)) ! 0)
       = ''Alicia''
   \<and> update_person sample_json 1 None None alice_store = (Inr (), alice_store)
   \<and> person_row_of 7 alice_store = None
   \<and> update_person sample_json 7 (Some ''Bob'') None alice_store = (Inr (), alice_store)"
proof -
  have row: "persons alice_store ! 0 = alice_row" "0 < length (persons alice_store)"
    "id' alice_row = 1" "total_detections alice_row = 0"
    by (simp_all add: alice_store_def alice_row_def)
  have ok: "fst (update_person sample_json 1 (Some ''Alicia'') None alice_store) = Inr ()"
    by (simp add: update_person_def supplied_name_def name_taken_def alice_store_def
        alice_row_def Let_def)
  have absent: "person_row_of 7 alice_store = None"
    by (simp add: person_row_of_def alice_store_def alice_row_def)
  note renamed = update_person_frame [of sample_json 1 "Some ''Alicia''" None alice_store]
  note plain = update_person_frame [of sample_json 1 None None alice_store]
  note nobody = update_person_frame [of sample_json 7 "Some ''Bob''" None alice_store]
  have a: "face_encoding
        (persons (snd (update_person sample_json 1 (Some ''Alicia'') None alice_store)) ! 0)
      = face_encoding alice_row
    \<and> total_detections
        (persons (snd (update_person sample_json 1 (Some ''Alicia'') None alice_store)) ! 0) = 0
    \<and> name (persons (snd (update_person sample_json 1 (Some ''Alicia'') None alice_store)) ! 0)
        = ''Alicia''"
    using renamed row ok by (auto simp: Let_def)
  have b: "update_person sample_json 1 None None alice_store = (Inr (), alice_store)"
    using plain by blast
  have c: "update_person sample_json 7 (Some ''Bob'') None alice_store = (Inr (), alice_store)"
    using nobody absent by blast
  from a b c absent show ?thesis by blast
qed

subsection \<open>Sorting rows\<close>

lemma set_insert_by: "set (insert_by le x xs) = insert x (set xs)"
  by (induction xs) auto

lemma mset_insert_by: "mset (insert_by le x xs) = add_mset x (mset xs)"
  by (induction xs) auto

lemma mset_order_by: "mset (order_by le xs) = mset xs"
  by (induction xs) (auto simp: order_by_def mset_insert_by)


lemma length_order_by: "length (order_by le xs) = length xs"
  using mset_order_by [of le xs] by (metis size_mset)

lemma sorted_wrt_insert_by:
  assumes total: "\<And>a b. le a b \<or> le b a" and trans: "\<And>a b c. le a b \<Longrightarrow> le b c \<Longrightarrow> le a c"
  shows "sorted_wrt le xs \<Longrightarrow> sorted_wrt le (insert_by le x xs)"
proof (induction xs)
  case Nil
  then show ?case by simp
next
  case (Cons y ys)
  show ?case
  proof (cases "le x y")
    case True
    then show ?thesis using Cons.prems trans by auto
  next
    case False
    then have "le y x" using total by blast
    then show ?thesis using Cons False by (auto simp: set_insert_by)
  qed
qed

lemma sorted_wrt_order_by:
  assumes "\<And>a b. le a b \<or> le b a" and "\<And>a b c. le a b \<Longrightarrow> le b c \<Longrightarrow> le a c"
  shows "sorted_wrt le (order_by le xs)"
  unfolding order_by_def
  by (induction xs) (auto intro: sorted_wrt_insert_by [OF assms])




lemma decode_rows_all:
  assumes "\<forall>r \<in> set rows. \<exists>p. decode_row j r = Inr p"
  shows "\<exists>ps. decode_rows j rows = Inr ps \<and> list_all2 (\<lambda>r p. decode_row j r = Inr p) rows ps"
  using assms by (induction rows) auto

lemma decode_row_keeps:
  "decode_row j r = Inr p \<Longrightarrow>
     id' p = id' r \<and> name p = name r \<and> last_seen p = last_seen r
     \<and> registration_date p = registration_date r \<and> total_detections p = total_detections r
     \<and> loads_encoding j (face_encoding r) = Some (face_encoding p)"
  by (auto simp: decode_row_def split: option.splits if_splits)

lemma sorted_wrt_list_all2:
  assumes "list_all2 R xs ys" and "sorted_wrt P xs"
    and "\<And>x y x' y'. R x x' \<Longrightarrow> R y y' \<Longrightarrow> P x y \<Longrightarrow> Q x' y'"
  shows "sorted_wrt Q ys"
  using assms(1,2)
proof (induction rule: list_all2_induct)
  case Nil
  then show ?case by simp
next
  case (Cons x xs y ys)
  have "Q y y'" if "y' \<in> set ys" for y'
  proof -
    from that Cons.hyps(2) obtain x' where "x' \<in> set xs" "R x' y'"
      by (metis in_set_conv_nth list_all2_conv_all_nth)
    with Cons.prems Cons.hyps(1) show ?thesis using assms(3) by auto
  qed
  with Cons show ?case by auto
qed

subsection \<open>Listing all persons\<close>



lemma get_all_persons_family:
  "get_all_persons sample_json family_store =
     Inr [\<lparr>id' = 2, name = ''Bob'', face_encoding = [4, 5], registration_date = 110,
           last_seen = Some 310, total_detections = 3, metadata = []\<rparr>,
          \<lparr>id' = 3, name = ''Carol'', face_encoding = [6], registration_date = 120,
           last_seen = Some 200, total_detections = 1, metadata = []\<rparr>,
          \<lparr>id' = 1, name = ''Alice'', face_encoding = [1, 2, 3], registration_date = 100,
           last_seen = None, total_detections = 0, metadata = []\<rparr>]"
  by (simp add: get_all_persons_def order_by_def last_seen_desc_name_asc_def decode_row_def
      family_store_def alice_row_def bob_row_def carol_row_def sample_json_def)

subsection \<open>Detection statistics\<close>









lemma get_detection_stats_family:
  "get_detection_stats 86400000160 1 family_store =
     \<lparr>stats_total_detections = 3, unique_persons = 2,
      top_visitors = [(''Bob'', 2), (''Carol'', 1)]\<rparr>"
  by (simp add: get_detection_stats_def microseconds_per_day_def Let_def visits_def
      order_by_def count_desc_def family_store_def alice_row_def bob_row_def carol_row_def)

subsection \<open>Searching by name\<close>

lemma like_percent_any: "like ''%'' s"
  by (induction s) auto

lemma like_plain_prefix:
  "plain q \<Longrightarrow> like (q @ ''%'') s = prefix (map ascii_upper q) (map ascii_upper s)"
proof (induction q arbitrary: s)
  case Nil
  then show ?case by (simp add: like_percent_any)
next
  case (Cons p ps)
  then have ps: "plain ps" and p: "p \<noteq> CHR ''%''" "p \<noteq> CHR ''_''"
    by (auto simp: plain_def)
  show ?case
  proof (cases s)
    case Nil
    then show ?thesis using p by simp
  next
    case (Cons c cs)
    then show ?thesis using p Cons.IH [OF ps, of cs] by simp
  qed
qed

lemma like_percent_suffix:
  "like (CHR ''%'' # pat) s = (\<exists>t. suffix t s \<and> like pat t)"
proof (induction s)
  case Nil
  then show ?case by (cases pat) auto
next
  case (Cons c cs)
  have "like (CHR ''%'' # pat) (c # cs) = (like pat (c # cs) \<or> like (CHR ''%'' # pat) cs)"
    by simp
  also have "\<dots> = (like pat (c # cs) \<or> (\<exists>t. suffix t cs \<and> like pat t))"
    using Cons.IH by simp
  also have "\<dots> = (\<exists>t. suffix t (c # cs) \<and> like pat t)"
    by (auto simp: suffix_Cons)
  finally show ?case .
qed

lemma suffix_map_ex:
  "(\<exists>t. suffix t s \<and> prefix xs (map f t)) = (\<exists>u. suffix u (map f s) \<and> prefix xs u)"
proof
  assume "\<exists>t. suffix t s \<and> prefix xs (map f t)"
  then obtain t where "suffix t s" "prefix xs (map f t)" by blast
  then have "suffix (map f t) (map f s)" by (auto simp: suffix_def)
  with \<open>prefix xs (map f t)\<close> show "\<exists>u. suffix u (map f s) \<and> prefix xs u" by blast
next
  assume "\<exists>u. suffix u (map f s) \<and> prefix xs u"
  then obtain u where u: "suffix u (map f s)" "prefix xs u" by blast
  then obtain v where "map f s = v @ u" by (auto simp: suffix_def)
  then have "u = map f (drop (length v) s)"
    by (metis append_eq_conv_conj drop_map)
  moreover have "suffix (drop (length v) s) s" by (rule suffix_drop)
  ultimately show "\<exists>t. suffix t s \<and> prefix xs (map f t)" using u(2) by blast
qed

lemma like_plain_contains:
  assumes "plain q"
  shows "like (''%'' @ q @ ''%'') nm = contains_ignoring_case nm q"
proof -
  have "like (''%'' @ q @ ''%'') nm = (\<exists>t. suffix t nm \<and> like (q @ ''%'') t)"
    using like_percent_suffix [of "q @ ''%''" nm] by simp
  also have "\<dots> = (\<exists>t. suffix t nm \<and> prefix (map ascii_upper q) (map ascii_upper t))"
    by (simp add: like_plain_prefix [OF assms])
  also have "\<dots> = (\<exists>u. suffix u (map ascii_upper nm) \<and> prefix (map ascii_upper q) u)"
    by (rule suffix_map_ex)
  also have "\<dots> = contains_ignoring_case nm q"
    unfolding contains_ignoring_case_def sublist_altdef' by blast
  finally show ?thesis .
qed

text \<open>
  For a plain query \<open>search_persons\<close> does what the specification says: it returns the
  persons whose name contains the query, decoded, in ascending order of name.
\<close>

lemma search_persons_plain:
  fixes j :: "'e json"
  assumes "plain q" and "\<forall>r \<in> set (persons s). \<exists>p. decode_row j r = Inr p"
  shows "\<exists>ps rows. search_persons j q s = Inr ps
     \<and> mset rows = mset (filter (\<lambda>r. contains_ignoring_case (name r) q) (persons s))
     \<and> list_all2 (\<lambda>r p. decode_row j r = Inr p) rows ps
     \<and> sorted_wrt (\<lambda>a b. name a \<le> name b) ps"
proof -
  define hits where "hits = filter (\<lambda>r. like (''%'' @ q @ ''%'') (name r)) (persons s)"
  define rows where "rows = order_by name_asc hits"
  have hits: "hits = filter (\<lambda>r. contains_ignoring_case (name r) q) (persons s)"
    unfolding hits_def using like_plain_contains [OF assms(1)] by simp
  have m: "mset rows = mset hits" by (simp add: rows_def mset_order_by)
  then have "set rows = set hits" by (metis set_mset_mset)
  then have "set rows \<subseteq> set (persons s)" by (auto simp: hits_def)
  with assms(2) have "\<forall>r \<in> set rows. \<exists>p. decode_row j r = Inr p" by blast
  from decode_rows_all [OF this] obtain ps where ps: "decode_rows j rows = Inr ps"
    and rel: "list_all2 (\<lambda>r p. decode_row j r = Inr p) rows ps" by blast
  have "sorted_wrt (name_asc :: person_row \<Rightarrow> person_row \<Rightarrow> bool) rows"
    unfolding rows_def by (rule sorted_wrt_order_by) (auto simp: name_asc_def)
  then have srt: "sorted_wrt (\<lambda>a b. name a \<le> name b) ps"
  proof (rule sorted_wrt_list_all2 [OF rel])
    fix x y :: person_row and x' y' :: "('e, metadata) person"
    assume "decode_row j x = Inr x'" "decode_row j y = Inr y'" "name_asc x y"
    then show "name x' \<le> name y'"
      using decode_row_keeps [of j x x'] decode_row_keeps [of j y y']
      by (auto simp: name_asc_def)
  qed
  from ps m rel srt show ?thesis
    unfolding search_persons_def rows_def hits_def [symmetric] hits [symmetric] by blast
qed

text \<open>
  C8 fails for a query that holds a wildcard. The query \<open>_\<close> matches every name of at least
  one character: on the store that holds Alice alone the search returns Alice, whose name
  has no underscore in it.
\<close>

theorem search_persons_underscore:
  "\<not> contains_ignoring_case ''Alice'' ''_''
   \<and> search_persons sample_json ''_'' alice_store =
       Inr [\<lparr>id' = 1, name = ''Alice'', face_encoding = [1, 2, 3], registration_date = 100,
             last_seen = None, total_detections = 0, metadata = []\<rparr>]"
proof -
  have "\<not> contains_ignoring_case ''Alice'' ''_''"
    by code_simp
  moreover have "search_persons sample_json ''_'' alice_store =
       Inr [\<lparr>id' = 1, name = ''Alice'', face_encoding = [1, 2, 3], registration_date = 100,
             last_seen = None, total_detections = 0, metadata = []\<rparr>]"
    by (simp add: search_persons_def order_by_def decode_row_def alice_store_def
        alice_row_def sample_json_def)
  ultimately show ?thesis by blast
qed

section \<open>Properties of the matcher\<close>

subsection \<open>First least and first greatest element\<close>

lemma index_of_first:
  "x \<in> set xs \<Longrightarrow>
     index_of x xs < length xs \<and> xs ! index_of x xs = x \<and> (\<forall>i < index_of x xs. xs ! i \<noteq> x)"
proof (induction xs)
  case Nil
  then show ?case by simp
next
  case (Cons y ys)
  show ?case
  proof (cases "x = y")
    case True
    then show ?thesis by simp
  next
    case False
    with Cons.prems have "x \<in> set ys" by simp
    from Cons.IH [OF this] False show ?thesis
      by (auto simp: nth_Cons split: nat.splits)
  qed
qed

lemma argmin_first:
  assumes "xs \<noteq> []"
  shows "argmin xs < length xs \<and> (\<forall>x \<in> set xs. xs ! argmin xs \<le> x)
     \<and> (\<forall>i < argmin xs. xs ! argmin xs < xs ! i)"
proof -
  have m: "Min (set xs) \<in> set xs" using assms by (intro Min_in) auto
  from index_of_first [OF m] have a: "argmin xs < length xs" "xs ! argmin xs = Min (set xs)"
    and b: "\<forall>i < argmin xs. xs ! i \<noteq> Min (set xs)"
    by (auto simp: argmin_def)
  have le: "\<forall>x \<in> set xs. Min (set xs) \<le> x" by simp
  have "xs ! argmin xs < xs ! i" if "i < argmin xs" for i
  proof -
    from that a(1) have "xs ! i \<in> set xs" by simp
    with le have "Min (set xs) \<le> xs ! i" by blast
    moreover from b that have "xs ! i \<noteq> Min (set xs)" by blast
    ultimately show ?thesis using a(2) by simp
  qed
  with a le show ?thesis by simp
qed

lemma argmax_first:
  assumes "xs \<noteq> []"
  shows "argmax xs < length xs \<and> (\<forall>x \<in> set xs. x \<le> xs ! argmax xs)
     \<and> (\<forall>i < argmax xs. xs ! i < xs ! argmax xs)"
proof -
  have m: "Max (set xs) \<in> set xs" using assms by (intro Max_in) auto
  from index_of_first [OF m] have a: "argmax xs < length xs" "xs ! argmax xs = Max (set xs)"
    and b: "\<forall>i < argmax xs. xs ! i \<noteq> Max (set xs)"
    by (auto simp: argmax_def)
  have le: "\<forall>x \<in> set xs. x \<le> Max (set xs)" by simp
  have "xs ! i < xs ! argmax xs" if "i < argmax xs" for i
  proof -
    from that a(1) have "xs ! i \<in> set xs" by simp
    with le have "xs ! i \<le> Max (set xs)" by blast
    moreover from b that have "xs ! i \<noteq> Max (set xs)" by blast
    ultimately show ?thesis using a(2) by simp
  qed
  with a le show ?thesis by simp
qed

lemma nearest_first:
  assumes "known \<noteq> []"
  shows "nearest known enc < length known
     \<and> (\<forall>k \<in> set known. euclidean (known ! nearest known enc) enc \<le> euclidean k enc)
     \<and> (\<forall>i < nearest known enc.
           euclidean (known ! nearest known enc) enc < euclidean (known ! i) enc)"
proof -
  have ne: "face_distance known enc \<noteq> []" using assms by (simp add: face_distance_def)
  from argmin_first [OF ne] show ?thesis
    by (auto simp: nearest_def face_distance_def)
qed

lemma recognize_face_unknown:
  assumes "\<forall>k \<in> set (known_face_encodings m). 6 / 10 < euclidean k enc"
  shows "recognize_face m loc enc = Inr (unknown loc)"
  using assms
  by (auto simp: recognize_face_def compare_faces_def face_distance_def Let_def not_le)

lemma recognize_face_match:
  assumes "\<exists>k \<in> set (known_face_encodings m). euclidean k enc \<le> 6 / 10"
    and "length (known_face_names m) = length (known_face_encodings m)"
    and "length (known_face_ids m) = length (known_face_encodings m)"
  shows "recognize_face m loc enc =
     Inr \<lparr>face_location = loc,
          face_name = known_face_names m ! nearest (known_face_encodings m) enc,
          face_person_id = Some (known_face_ids m ! nearest (known_face_encodings m) enc),
          face_confidence =
            1 - euclidean (known_face_encodings m ! nearest (known_face_encodings m) enc) enc\<rparr>
     \<and> euclidean (known_face_encodings m ! nearest (known_face_encodings m) enc) enc \<le> 6 / 10"
proof -
  define known where "known = known_face_encodings m"
  define n where "n = nearest known enc"
  from assms(1) have ne: "known \<noteq> []" by (auto simp: known_def)
  from nearest_first [OF ne, of enc] have n: "n < length known"
    and least: "\<forall>k \<in> set known. euclidean (known ! n) enc \<le> euclidean k enc"
    by (auto simp: n_def)
  from assms(1) least have close: "euclidean (known ! n) enc \<le> 6 / 10"
    unfolding known_def [symmetric] by fastforce
  have some: "True \<in> set (compare_faces known enc (6 / 10))"
    using assms(1) by (auto simp: compare_faces_def face_distance_def known_def)
  have at: "compare_faces known enc (6 / 10) ! n" "face_distance known enc ! n = euclidean (known ! n) enc"
    using n close by (simp_all add: compare_faces_def face_distance_def)
  have "argmin (face_distance known enc) = n" by (simp add: n_def nearest_def)
  with ne some at n assms(2,3) close show ?thesis
    unfolding known_def [symmetric] n_def [symmetric]
    by (simp add: recognize_face_def Let_def item_def known_def [symmetric])
qed

subsection \<open>Recognizing faces\<close>

lemma recognize_face_total:
  assumes "length (known_face_names m) = length (known_face_encodings m)"
    and "length (known_face_ids m) = length (known_face_encodings m)"
  shows "\<exists>r. recognize_face m loc enc = Inr r"
proof (cases "\<exists>k \<in> set (known_face_encodings m). euclidean k enc \<le> 6 / 10")
  case True
  from recognize_face_match [OF True assms] show ?thesis by blast
next
  case False
  then have "\<forall>k \<in> set (known_face_encodings m). 6 / 10 < euclidean k enc" by (simp add: not_le)
  from recognize_face_unknown [OF this] show ?thesis by blast
qed

lemma recognize_each_all:
  assumes "length (known_face_names m) = length (known_face_encodings m)"
    and "length (known_face_ids m) = length (known_face_encodings m)"
  shows "\<exists>rs. recognize_each m width faces = Inr rs \<and> length rs = length faces
     \<and> (\<forall>i < length faces.
           recognize_face m (scale_back width (fst (faces ! i))) (snd (faces ! i)) = Inr (rs ! i))"
proof (induction faces)
  case Nil
  then show ?case by simp
next
  case (Cons f faces)
  obtain loc enc where f: "f = (loc, enc)" by (cases f)
  from recognize_face_total [OF assms] obtain r
    where r: "recognize_face m (scale_back width loc) enc = Inr r" by blast
  from Cons obtain rs where rs: "recognize_each m width faces = Inr rs" "length rs = length faces"
    "\<forall>i < length faces.
        recognize_face m (scale_back width (fst (faces ! i))) (snd (faces ! i)) = Inr (rs ! i)"
    by blast
  have "\<forall>i < length (f # faces).
     recognize_face m (scale_back width (fst ((f # faces) ! i))) (snd ((f # faces) ! i))
       = Inr ((r # rs) ! i)"
    using r rs(3) f by (auto simp: nth_Cons split: nat.splits)
  with r rs(1,2) f show ?case by auto
qed

text \<open>
  C1, as the code has it. When the encoder returns the embeddings, \<open>recognize_faces\<close>
  returns one result for each detected face. A face is matched when some known embedding
  lies at Euclidean distance at most 0.6 from it (\<open>compare_faces\<close> tests
  \<open>distance <= tolerance\<close>): it then gets the name and the id stored at the position of the
  first known embedding at the least distance, and the confidence 1 minus that distance.
  When every known embedding is farther than 0.6, and so when nothing is known, the face
  is \<open>Unknown\<close> with no person id and confidence 0. The three lists of the matcher are
  assumed to be of one length, as \<open>load_known_faces\<close> and \<open>register_new_face\<close> keep them.
\<close>

theorem recognize_faces_nearest:
  fixes lib :: "'img vision"
  assumes "face_encodings lib (working_frame lib frame) (found_faces lib m frame) = Inr encs"
    and "length (known_face_names m) = length (known_face_encodings m)"
    and "length (known_face_ids m) = length (known_face_encodings m)"
  shows "\<exists>rs. recognize_faces lib m frame = Inr rs
     \<and> length rs = min (length (found_faces lib m frame)) (length encs)
     \<and> (\<forall>i < length rs.
          (if \<exists>k \<in> set (known_face_encodings m). euclidean k (encs ! i) \<le> 6 / 10
           then nearest (known_face_encodings m) (encs ! i) < length (known_face_encodings m)
              \<and> face_name (rs ! i)
                   = known_face_names m ! nearest (known_face_encodings m) (encs ! i)
              \<and> face_person_id (rs ! i)
                   = Some (known_face_ids m ! nearest (known_face_encodings m) (encs ! i))
              \<and> face_confidence (rs ! i)
                   = 1 - euclidean
                       (known_face_encodings m ! nearest (known_face_encodings m) (encs ! i))
                       (encs ! i)
              \<and> (\<forall>k \<in> set (known_face_encodings m).
                    euclidean
                       (known_face_encodings m ! nearest (known_face_encodings m) (encs ! i))
                       (encs ! i) \<le> euclidean k (encs ! i))
           else face_name (rs ! i) = ''Unknown'' \<and> face_person_id (rs ! i) = None
              \<and> face_confidence (rs ! i) = 0))"
proof -
  define locs where "locs = found_faces lib m frame"
  define width where "width = snd (shape lib (cvtColor lib frame))"
  define faces where "faces = zip locs encs"
  from recognize_each_all [OF assms(2,3), of width faces] obtain rs
    where rs: "recognize_each m width faces = Inr rs" "length rs = length faces"
      and each: "\<forall>i < length faces.
           recognize_face m (scale_back width (fst (faces ! i))) (snd (faces ! i)) = Inr (rs ! i)"
    by blast
  have run: "recognize_faces lib m frame = Inr rs"
    using assms(1) rs(1)
    by (simp add: recognize_faces_def Let_def found_faces_def locs_def width_def faces_def)
  have len: "length rs = min (length locs) (length encs)"
    by (simp add: rs(2) faces_def)
  have face: "(if \<exists>k \<in> set (known_face_encodings m). euclidean k (encs ! i) \<le> 6 / 10
           then nearest (known_face_encodings m) (encs ! i) < length (known_face_encodings m)
              \<and> face_name (rs ! i)
                   = known_face_names m ! nearest (known_face_encodings m) (encs ! i)
              \<and> face_person_id (rs ! i)
                   = Some (known_face_ids m ! nearest (known_face_encodings m) (encs ! i))
              \<and> face_confidence (rs ! i)
                   = 1 - euclidean
                       (known_face_encodings m ! nearest (known_face_encodings m) (encs ! i))
                       (encs ! i)
              \<and> (\<forall>k \<in> set (known_face_encodings m).
                    euclidean
                       (known_face_encodings m ! nearest (known_face_encodings m) (encs ! i))
                       (encs ! i) \<le> euclidean k (encs ! i))
           else face_name (rs ! i) = ''Unknown'' \<and> face_person_id (rs ! i) = None
              \<and> face_confidence (rs ! i) = 0)" if i: "i < length rs" for i
  proof -
    from i rs(2) have "i < length faces" by simp
    with each have r: "recognize_face m (scale_back width (locs ! i)) (encs ! i) = Inr (rs ! i)"
      by (auto simp: faces_def)
    show ?thesis
    proof (cases "\<exists>k \<in> set (known_face_encodings m). euclidean k (encs ! i) \<le> 6 / 10")
      case True
      then have ne: "known_face_encodings m \<noteq> []" by auto
      from recognize_face_match [OF True assms(2,3), of "scale_back width (locs ! i)"] r
        nearest_first [OF ne, of "encs ! i"] True
      show ?thesis by auto
    next
      case False
      then have "\<forall>k \<in> set (known_face_encodings m). 6 / 10 < euclidean k (encs ! i)"
        by (simp add: not_le)
      from recognize_face_unknown [OF this, of "scale_back width (locs ! i)"] r False
      show ?thesis by (auto simp: unknown_def)
    qed
  qed
  from run len face show ?thesis unfolding locs_def by blast
qed

lemma sqrt_25: "sqrt 25 = 5"
proof -
  have "sqrt (5\<^sup>2) = 5" by (rule real_sqrt_abs2 [of 5, simplified] | simp)
  then show ?thesis by simp
qed

lemma distance_same: "euclidean [1, 2, 3] [1, 2, 3] = 0" by (simp add: euclidean_def)
lemma distance_five: "euclidean [1, 2, 3] [4, 6, 3] = 5" by (simp add: euclidean_def sqrt_25)
lemma distance_tolerance: "euclidean [3 / 5] [0] = 6 / 10" by (simp add: euclidean_def)


text \<open>
  A picture of two faces, the first Alice's own embedding, the second at distance 5 from
  it.
\<close>

theorem recognize_faces_nearest_witness:
  "\<exists>rs. recognize_faces sample_vision alice_matcher two_faces = Inr rs \<and> length rs = 2
     \<and> face_name (rs ! 0) = ''Alice'' \<and> face_person_id (rs ! 0) = Some 1
     \<and> face_confidence (rs ! 0) = 1
     \<and> face_name (rs ! 1) = ''Unknown'' \<and> face_person_id (rs ! 1) = None
     \<and> face_confidence (rs ! 1) = 0"
proof -
  have enc: "face_encodings sample_vision (working_frame sample_vision two_faces)
      (found_faces sample_vision alice_matcher two_faces) = Inr [[1, 2, 3], [4, 6, 3]]"
    by (simp add: found_faces_def working_frame_def sample_vision_def two_faces_def)
  have lens: "length (known_face_names alice_matcher) = length (known_face_encodings alice_matcher)"
    "length (known_face_ids alice_matcher) = length (known_face_encodings alice_matcher)"
    by (simp_all add: alice_matcher_def)
  have n: "length (found_faces sample_vision alice_matcher two_faces) = 2"
    by (simp add: found_faces_def working_frame_def sample_vision_def two_faces_def)
  have known: "known_face_encodings alice_matcher = [[1, 2, 3]]"
    "known_face_names alice_matcher = [''Alice'']" "known_face_ids alice_matcher = [1]"
    by (simp_all add: alice_matcher_def)
  from recognize_faces_nearest [OF enc lens] obtain rs
    where rs: "recognize_faces sample_vision alice_matcher two_faces = Inr rs"
      "length rs = min (length (found_faces sample_vision alice_matcher two_faces))
          (length [[1, 2, 3], [4, 6, 3 :: real]])"
      and each: "\<forall>i < length rs.
          (if \<exists>k \<in> set (known_face_encodings alice_matcher).
                 euclidean k ([[1, 2, 3], [4, 6, 3]] ! i) \<le> 6 / 10
           then nearest (known_face_encodings alice_matcher) ([[1, 2, 3], [4, 6, 3]] ! i)
                  < length (known_face_encodings alice_matcher)
              \<and> face_name (rs ! i)
                   = known_face_names alice_matcher
                       ! nearest (known_face_encodings alice_matcher) ([[1, 2, 3], [4, 6, 3]] ! i)
              \<and> face_person_id (rs ! i)
                   = Some (known_face_ids alice_matcher
                       ! nearest (known_face_encodings alice_matcher) ([[1, 2, 3], [4, 6, 3]] ! i))
              \<and> face_confidence (rs ! i)
                   = 1 - euclidean
                       (known_face_encodings alice_matcher
                          ! nearest (known_face_encodings alice_matcher) ([[1, 2, 3], [4, 6, 3]] ! i))
                       ([[1, 2, 3], [4, 6, 3]] ! i)
              \<and> (\<forall>k \<in> set (known_face_encodings alice_matcher).
                    euclidean
                       (known_face_encodings alice_matcher
                          ! nearest (known_face_encodings alice_matcher) ([[1, 2, 3], [4, 6, 3]] ! i))
                       ([[1, 2, 3], [4, 6, 3]] ! i) \<le> euclidean k ([[1, 2, 3], [4, 6, 3]] ! i))
           else face_name (rs ! i) = ''Unknown'' \<and> face_person_id (rs ! i) = None
              \<and> face_confidence (rs ! i) = 0)"
    by blast
  from rs(2) n have len: "length rs = 2" by simp
  from each len have "face_name (rs ! 0) = ''Alice'' \<and> face_person_id (rs ! 0) = Some 1
     \<and> face_confidence (rs ! 0) = 1"
    by (auto simp: known distance_same dest!: spec [of _ 0])
  moreover from each len have "face_name (rs ! 1) = ''Unknown'' \<and> face_person_id (rs ! 1) = None
     \<and> face_confidence (rs ! 1) = 0"
    by (auto simp: known distance_five dest!: spec [of _ 1])
  ultimately show ?thesis using rs(1) len by blast
qed

lemma recognize_faces_two_faces: "recognize_faces sample_vision alice_matcher two_faces =
  Inr [\<lparr>face_location = (10, 50, 50, 10), face_name = ''Alice'', face_person_id = Some 1, face_confidence = 1\<rparr>,
       \<lparr>face_location = (20, 140, 60, 80), face_name = ''Unknown'', face_person_id = None, face_confidence = 0\<rparr>]"
  by (simp add: recognize_faces_def working_frame_def sample_vision_def alice_matcher_def two_faces_def
     scale_back_def recognize_face_def compare_faces_def face_distance_def distance_same distance_five argmin_def item_def unknown_def Let_def)


text \<open>
  C1 as it is written asks for a distance below 0.6. At a distance of exactly 0.6, which
  is not below it, the face is matched all the same, with confidence 0.4.
\<close>

theorem recognize_faces_at_tolerance:
  "euclidean [3 / 5] [0] = 6 / 10
   \<and> recognize_faces sample_vision edge_matcher edge_face =
       Inr [\<lparr>face_location = (10, 50, 50, 10), face_name = ''Alice'', face_person_id = Some 1,
             face_confidence = 4 / 10\<rparr>]"
  by (simp add: recognize_faces_def working_frame_def sample_vision_def edge_matcher_def edge_face_def
     scale_back_def recognize_face_def compare_faces_def face_distance_def distance_tolerance argmin_def item_def unknown_def Let_def)


subsection \<open>Registering a face\<close>

lemma add_person_error_keeps: "fst (add_person j now nm enc md s) = Inl e \<Longrightarrow> snd (add_person j now nm enc md s) = s"
  by (auto simp: add_person_def Let_def split: if_splits)

lemma add_person_new:
  "nm \<notin> set (map name (persons s)) \<Longrightarrow> \<exists>pid s'. add_person j now nm enc md s = (Inr pid, s')"
  by (simp add: add_person_def Let_def)

lemma largest_face_first:
  assumes "found_faces lib m frame \<noteq> []"
  shows "largest_face lib m frame < length (found_faces lib m frame)
     \<and> (\<forall>b \<in> set (found_faces lib m frame).
           area b \<le> area (found_faces lib m frame ! largest_face lib m frame))
     \<and> (\<forall>i < largest_face lib m frame.
           area (found_faces lib m frame ! i)
             < area (found_faces lib m frame ! largest_face lib m frame))"
proof -
  have ne: "map area (found_faces lib m frame) \<noteq> []" using assms by simp
  from argmax_first [OF ne] show ?thesis
    by (auto simp: largest_face_def)
qed

text \<open>
  C4, as the code has it. With no face in the picture \<open>register_new_face\<close> returns
  \<open>False\<close> and leaves the matcher and the registry alone. Otherwise it picks the first face
  of greatest area in the working frame, which is the face of strictly greatest area when
  there is one; and when the encoder returns the embedding of that face and no person has
  the name, it stores the person with \<open>add_person\<close>, appends the embedding, the name and
  the new id to the three lists of the matcher, and returns \<open>True\<close>.
\<close>

theorem register_new_face_largest:
  fixes lib :: "'img vision"
  shows "(found_faces lib m frame = [] \<longrightarrow>
            register_new_face lib j now frame nm md m s = (False, m, s))
     \<and> (found_faces lib m frame \<noteq> [] \<longrightarrow>
          largest_face lib m frame < length (found_faces lib m frame)
          \<and> (\<forall>b \<in> set (found_faces lib m frame).
                area b \<le> area (found_faces lib m frame ! largest_face lib m frame))
          \<and> (\<forall>i < length (found_faces lib m frame).
                (\<forall>k < length (found_faces lib m frame).
                   k \<noteq> i \<longrightarrow> area (found_faces lib m frame ! k) < area (found_faces lib m frame ! i))
                \<longrightarrow> largest_face lib m frame = i)
          \<and> (\<forall>enc rest.
                face_encodings lib (working_frame lib frame)
                    [found_faces lib m frame ! largest_face lib m frame] = Inr (enc # rest)
                \<and> nm \<notin> set (map name (persons s)) \<longrightarrow>
                (\<exists>pid s'. add_person j now nm enc md s = (Inr pid, s')
                   \<and> register_new_face lib j now frame nm md m s =
                       (True,
                        m\<lparr>known_face_encodings := known_face_encodings m @ [enc],
                          known_face_names := known_face_names m @ [nm],
                          known_face_ids := known_face_ids m @ [pid]\<rparr>,
                        s'))))"
proof (intro conjI impI)
  assume "found_faces lib m frame = []"
  then show "register_new_face lib j now frame nm md m s = (False, m, s)"
    by (simp add: register_new_face_def found_faces_def Let_def)
next
  assume ne: "found_faces lib m frame \<noteq> []"
  note first = largest_face_first [OF ne]
  from first show "largest_face lib m frame < length (found_faces lib m frame)" by blast
  from first show "\<forall>b \<in> set (found_faces lib m frame).
                area b \<le> area (found_faces lib m frame ! largest_face lib m frame)" by blast
  show "\<forall>i < length (found_faces lib m frame).
                (\<forall>k < length (found_faces lib m frame).
                   k \<noteq> i \<longrightarrow> area (found_faces lib m frame ! k) < area (found_faces lib m frame ! i))
                \<longrightarrow> largest_face lib m frame = i"
  proof (intro allI impI)
    fix i
    assume i: "i < length (found_faces lib m frame)"
      and strict: "\<forall>k < length (found_faces lib m frame).
                   k \<noteq> i \<longrightarrow> area (found_faces lib m frame ! k) < area (found_faces lib m frame ! i)"
    from first i have "area (found_faces lib m frame ! i)
        \<le> area (found_faces lib m frame ! largest_face lib m frame)"
      by (meson nth_mem)
    with strict first show "largest_face lib m frame = i"
      by (metis not_less)
  qed
  show "\<forall>enc rest.
                face_encodings lib (working_frame lib frame)
                    [found_faces lib m frame ! largest_face lib m frame] = Inr (enc # rest)
                \<and> nm \<notin> set (map name (persons s)) \<longrightarrow>
                (\<exists>pid s'. add_person j now nm enc md s = (Inr pid, s')
                   \<and> register_new_face lib j now frame nm md m s =
                       (True,
                        m\<lparr>known_face_encodings := known_face_encodings m @ [enc],
                          known_face_names := known_face_names m @ [nm],
                          known_face_ids := known_face_ids m @ [pid]\<rparr>,
                        s'))"
  proof (intro allI impI, elim conjE)
    fix enc rest
    assume e: "face_encodings lib (working_frame lib frame)
                    [found_faces lib m frame ! largest_face lib m frame] = Inr (enc # rest)"
      and new: "nm \<notin> set (map name (persons s))"
    from add_person_new [OF new, of j now enc md] obtain pid s'
      where a: "add_person j now nm enc md s = (Inr pid, s')" by blast
    have "register_new_face lib j now frame nm md m s =
                       (True,
                        m\<lparr>known_face_encodings := known_face_encodings m @ [enc],
                          known_face_names := known_face_names m @ [nm],
                          known_face_ids := known_face_ids m @ [pid]\<rparr>,
                        s')"
      using ne e a
      by (simp add: register_new_face_def Let_def found_faces_def largest_face_def)
    with a show "\<exists>pid s'. add_person j now nm enc md s = (Inr pid, s')
                   \<and> register_new_face lib j now frame nm md m s =
                       (True,
                        m\<lparr>known_face_encodings := known_face_encodings m @ [enc],
                          known_face_names := known_face_names m @ [nm],
                          known_face_ids := known_face_ids m @ [pid]\<rparr>,
                        s')" by blast
  qed
qed


lemmas vision_defs = found_faces_def largest_face_def working_frame_def sample_vision_def
  failing_vision_def two_faces_def edge_face_def area_def argmax_def


text \<open>
  Bob is registered from a picture of two faces, the second the larger; an empty picture
  registers nobody.
\<close>

theorem register_new_face_largest_witness:
  "found_faces sample_vision alice_matcher two_faces \<noteq> []
   \<and> largest_face sample_vision alice_matcher two_faces = 1
   \<and> ''Bob'' \<notin> set (map name (persons alice_store))
   \<and> (\<exists>pid s'. add_person sample_json 200 ''Bob'' [4, 6, 3] None alice_store = (Inr pid, s')
         \<and> register_new_face sample_vision sample_json 200 two_faces ''Bob'' None
              alice_matcher alice_store
            = (True,
               alice_matcher
                 \<lparr>known_face_encodings := known_face_encodings alice_matcher @ [[4, 6, 3]],
                  known_face_names := known_face_names alice_matcher @ [''Bob''],
                  known_face_ids := known_face_ids alice_matcher @ [pid]\<rparr>,
               s'))
   \<and> found_faces sample_vision alice_matcher [] = []
   \<and> register_new_face sample_vision sample_json 200 [] ''Bob'' None alice_matcher alice_store
        = (False, alice_matcher, alice_store)"
proof -
  have ne: "found_faces sample_vision alice_matcher two_faces \<noteq> []"
    by (simp add: vision_defs)
  have big: "largest_face sample_vision alice_matcher two_faces = 1"
    by (simp add: vision_defs)
  have enc: "face_encodings sample_vision (working_frame sample_vision two_faces)
      [found_faces sample_vision alice_matcher two_faces
         ! largest_face sample_vision alice_matcher two_faces] = Inr ([4, 6, 3] # [])"
    unfolding big by (simp add: vision_defs)
  have new: "''Bob'' \<notin> set (map name (persons alice_store))"
    by (simp add: alice_store_def alice_row_def)
  have none: "found_faces sample_vision alice_matcher [] = []"
    by (simp add: vision_defs)
  note t = register_new_face_largest
    [of sample_vision alice_matcher two_faces sample_json 200 "''Bob''" None alice_store]
  from t ne enc new
  have reg: "\<exists>pid s'. add_person sample_json 200 ''Bob'' [4, 6, 3] None alice_store = (Inr pid, s')
         \<and> register_new_face sample_vision sample_json 200 two_faces ''Bob'' None
              alice_matcher alice_store
            = (True,
               alice_matcher
                 \<lparr>known_face_encodings := known_face_encodings alice_matcher @ [[4, 6, 3]],
                  known_face_names := known_face_names alice_matcher @ [''Bob''],
                  known_face_ids := known_face_ids alice_matcher @ [pid]\<rparr>,
               s')"
    by blast
  from register_new_face_largest
    [of sample_vision alice_matcher "[]" sample_json 200 "''Bob''" None alice_store] none
  have empty: "register_new_face sample_vision sample_json 200 [] ''Bob'' None alice_matcher
      alice_store = (False, alice_matcher, alice_store)"
    by blast
  from ne big new reg none empty show ?thesis by blast
qed


text \<open>
  C4 as it is written promises the registration whenever a face is found. A picture with
  faces, registered under the name Alice, which is taken, is refused: nothing is stored
  and nothing is appended.
\<close>

theorem register_new_face_duplicate_name:
  "found_faces sample_vision alice_matcher two_faces \<noteq> []
   \<and> register_new_face sample_vision sample_json 200 two_faces ''Alice'' None
        alice_matcher alice_store = (False, alice_matcher, alice_store)"
  by (simp add: register_new_face_def vision_defs add_person_def alice_store_def alice_row_def
      Let_def)


text \<open>
  C10. When a face is found and the encoder raises, or returns no embedding, or
  \<open>add_person\<close> raises, \<open>register_new_face\<close> returns \<open>False\<close>, and the three lists of the
  matcher and the registry are as before the call.
\<close>

theorem register_new_face_failure:
  fixes lib :: "'img vision"
  assumes "found_faces lib m frame \<noteq> []"
    and "(\<exists>e. face_encodings lib (working_frame lib frame)
                [found_faces lib m frame ! largest_face lib m frame] = Inl e)
         \<or> face_encodings lib (working_frame lib frame)
                [found_faces lib m frame ! largest_face lib m frame] = Inr []
         \<or> (\<exists>enc rest e. face_encodings lib (working_frame lib frame)
                [found_faces lib m frame ! largest_face lib m frame] = Inr (enc # rest)
               \<and> fst (add_person j now nm enc md s) = Inl e)"
  shows "register_new_face lib j now frame nm md m s = (False, m, s)"
  using assms(2)
proof (elim disjE exE conjE)
  fix e
  assume "face_encodings lib (working_frame lib frame)
                [found_faces lib m frame ! largest_face lib m frame] = Inl e"
  with assms(1) show ?thesis
    by (simp add: register_new_face_def Let_def found_faces_def largest_face_def)
next
  assume "face_encodings lib (working_frame lib frame)
                [found_faces lib m frame ! largest_face lib m frame] = Inr []"
  with assms(1) show ?thesis
    by (simp add: register_new_face_def Let_def found_faces_def largest_face_def)
next
  fix enc rest e
  assume enc: "face_encodings lib (working_frame lib frame)
                [found_faces lib m frame ! largest_face lib m frame] = Inr (enc # rest)"
    and err: "fst (add_person j now nm enc md s) = Inl e"
  from err add_person_error_keeps [OF err]
  have "add_person j now nm enc md s = (Inl e, s)" by (simp add: prod_eq_iff)
  with assms(1) enc show ?thesis
    by (simp add: register_new_face_def Let_def found_faces_def largest_face_def)
qed

text \<open>A name that is taken, and an encoder that fails.\<close>

theorem register_new_face_failure_witness:
  "register_new_face sample_vision sample_json 200 edge_face ''Alice'' None
        alice_matcher alice_store = (False, alice_matcher, alice_store)
   \<and> register_new_face failing_vision sample_json 200 two_faces ''Bob'' None
        alice_matcher alice_store = (False, alice_matcher, alice_store)"
proof -
  have ne1: "found_faces sample_vision alice_matcher edge_face \<noteq> []"
    by (simp add: vision_defs)
  have dup: "(\<exists>e. face_encodings sample_vision (working_frame sample_vision edge_face)
                [found_faces sample_vision alice_matcher edge_face
                   ! largest_face sample_vision alice_matcher edge_face] = Inl e)
         \<or> face_encodings sample_vision (working_frame sample_vision edge_face)
                [found_faces sample_vision alice_matcher edge_face
                   ! largest_face sample_vision alice_matcher edge_face] = Inr []
         \<or> (\<exists>enc rest e. face_encodings sample_vision (working_frame sample_vision edge_face)
                [found_faces sample_vision alice_matcher edge_face
                   ! largest_face sample_vision alice_matcher edge_face] = Inr (enc # rest)
               \<and> fst (add_person sample_json 200 ''Alice'' enc None alice_store) = Inl e)"
    by (simp add: vision_defs add_person_def alice_store_def alice_row_def)
  have ne2: "found_faces failing_vision alice_matcher two_faces \<noteq> []"
    by (simp add: vision_defs)
  have lib: "(\<exists>e. face_encodings failing_vision (working_frame failing_vision two_faces)
                [found_faces failing_vision alice_matcher two_faces
                   ! largest_face failing_vision alice_matcher two_faces] = Inl e)
         \<or> face_encodings failing_vision (working_frame failing_vision two_faces)
                [found_faces failing_vision alice_matcher two_faces
                   ! largest_face failing_vision alice_matcher two_faces] = Inr []
         \<or> (\<exists>enc rest e. face_encodings failing_vision (working_frame failing_vision two_faces)
                [found_faces failing_vision alice_matcher two_faces
                   ! largest_face failing_vision alice_matcher two_faces] = Inr (enc # rest)
               \<and> fst (add_person sample_json 200 ''Bob'' enc None alice_store) = Inl e)"
    by (simp add: vision_defs)
  show ?thesis
    by (rule conjI [OF register_new_face_failure [OF ne1 dup]
          register_new_face_failure [OF ne2 lib]])
qed

end
